theory Spec2Isabelle
  imports Complex_Main
begin

section \<open>Conventions of the embedding\<close>

text \<open>
  The module \<^verbatim>\<open>mir_eval/sonify.py\<close> computes on NumPy arrays of double-precision numbers.
  The embedding reads every floating-point number as a real number and every array
  operation as the exact operation on lists of reals: rounding errors, infinities and
  not-a-number values are outside the model.  One-dimensional arrays are lists, a
  two-dimensional array is a record of its shape and its rows, Python integers are
  \<^typ>\<open>int\<close>, and every exception the code can raise is a value of the type \<open>error\<close>.
  The two explicit \<^verbatim>\<open>raise ValueError\<close> statements of \<^verbatim>\<open>time_frequency\<close> are the constructor
  \<open>ShapeMismatch\<close>; a \<^verbatim>\<open>ValueError\<close> raised inside NumPy or SciPy is \<open>ValueError\<close>.
\<close>

datatype error = ShapeMismatch | ValueError | IndexError | ZeroDivisionError | OverflowError

text \<open>Sequencing of computations that may raise.\<close>

definition and_then :: "error + 'a \<Rightarrow> ('a \<Rightarrow> error + 'b) \<Rightarrow> error + 'b" where
  "and_then m f = (case m of Inl e \<Rightarrow> Inl e | Inr x \<Rightarrow> f x)"

text \<open>\<^verbatim>\<open>int(x)\<close> on a float truncates towards zero.\<close>

definition py_int :: "real \<Rightarrow> int" where
  "py_int x = (if 0 \<le> x then \<lfloor>x\<rfloor> else \<lceil>x\<rceil>)"

text \<open>\<^verbatim>\<open>np.arange(stop)\<close>: the numbers \<open>0, 1, ...\<close> below \<open>stop\<close>.\<close>

definition arange :: "real \<Rightarrow> real list" where
  "arange stop = map real [0..<nat \<lceil>stop\<rceil>]"

text \<open>\<^verbatim>\<open>a.max()\<close> and \<^verbatim>\<open>a.min()\<close> raise \<^verbatim>\<open>ValueError\<close> on an array without elements.\<close>

definition np_max :: "real list \<Rightarrow> error + real" where
  "np_max xs = (case xs of [] \<Rightarrow> Inl ValueError | x # r \<Rightarrow> Inr (fold max r x))"

definition np_min :: "real list \<Rightarrow> error + real" where
  "np_min xs = (case xs of [] \<Rightarrow> Inl ValueError | x # r \<Rightarrow> Inr (fold min r x))"

text \<open>\<^verbatim>\<open>np.zeros(n)\<close> raises \<^verbatim>\<open>ValueError\<close> for a negative dimension.\<close>

definition zeros :: "int \<Rightarrow> error + real list" where
  "zeros n = (if n < 0 then Inl ValueError else Inr (replicate (nat n) 0))"

text \<open>
  Slices.  A slice bound \<open>i\<close> on an array of \<open>n\<close> elements counts from the end when it is
  negative and is clamped into \<open>0..n\<close>.  \<^verbatim>\<open>a[lo:hi] = v\<close> needs \<open>v\<close> to have as many elements as
  the slice, or exactly one element (which is then broadcast); otherwise NumPy raises
  \<^verbatim>\<open>ValueError\<close>.
\<close>

definition slice_index :: "nat \<Rightarrow> int \<Rightarrow> nat" where
  "slice_index n i = (if i < 0 then nat (max 0 (int n + i)) else min (nat i) n)"

definition slice_upto :: "'a list \<Rightarrow> int \<Rightarrow> 'a list" where
  "slice_upto xs hi = take (slice_index (length xs) hi) xs"

definition set_slice :: "real list \<Rightarrow> int \<Rightarrow> int option \<Rightarrow> real list \<Rightarrow> error + real list" where
  "set_slice buf lo hi vals =
     (let n = length buf;
          a = slice_index n lo;
          b = (case hi of None \<Rightarrow> n | Some j \<Rightarrow> slice_index n j);
          cnt = b - a
      in if length vals = cnt then Inr (take a buf @ vals @ drop (a + cnt) buf)
         else if length vals = 1 then Inr (take a buf @ replicate cnt (hd vals) @ drop (a + cnt) buf)
         else Inl ValueError)"

section \<open>\<^verbatim>\<open>clicks\<close>\<close>

text \<open>The default click: a 1 kHz tone of \<open>0.1 * fs\<close> samples with an exponential decay.\<close>

definition default_click :: "int \<Rightarrow> real list" where
  "default_click fs =
     map (\<lambda>k. sin (2 * pi * k * 1000 / (1 * real_of_int fs)) * exp (- k / (real_of_int fs * (1 / 100))))
       (arange (real_of_int fs * (1 / 10)))"

text \<open>
  The loop over the click times.  Both guards leave the loop (\<^verbatim>\<open>break\<close>): a click that starts at or
  after the end of the buffer, and a click that reaches the end of the buffer, which is
  written truncated.  Any other click is assigned to \<^verbatim>\<open>click_signal[start:end]\<close>.
\<close>

fun place_clicks :: "real list \<Rightarrow> int \<Rightarrow> real list \<Rightarrow> int \<Rightarrow> real list \<Rightarrow> error + real list" where
  "place_clicks [] fs click len click_signal = Inr click_signal"
| "place_clicks (time # rest) fs click len click_signal =
     (let start = py_int (time * real_of_int fs);
          end = start + int (length click)
      in if start \<ge> len then Inr click_signal
         else if end \<ge> len then set_slice click_signal start None (slice_upto click (len - start))
         else and_then (set_slice click_signal start (Some end) click)
                (\<lambda>click_signal'. place_clicks rest fs click len click_signal'))"

definition clicks :: "real list \<Rightarrow> int \<Rightarrow> real list option \<Rightarrow> int option \<Rightarrow> error + real list" where
  "clicks ts fs click len =
     (let click = (case click of None \<Rightarrow> default_click fs | Some c \<Rightarrow> c)
      in and_then (case len of
                     Some n \<Rightarrow> Inr n
                   | None \<Rightarrow> and_then (np_max ts)
                              (\<lambda>m. Inr (py_int (m * real_of_int fs + real (length click) + 1))))
           (\<lambda>n. and_then (zeros n) (\<lambda>click_signal. place_clicks ts fs click n click_signal)))"

section \<open>Arrays, interpolation and convolution\<close>

text \<open>A two-dimensional array: \<open>shape0\<close> rows of \<open>shape1\<close> numbers each.\<close>

record ndarray2 =
  shape0 :: nat
  shape1 :: nat
  rows :: "real list list"

definition wf_array :: "ndarray2 \<Rightarrow> bool" where
  "wf_array a \<longleftrightarrow> length (rows a) = shape0 a \<and> list_all (\<lambda>r. length r = shape1 a) (rows a)"

text \<open>
  The \<open>times\<close> argument of \<^verbatim>\<open>time_frequency\<close> is either one-dimensional (time stamps) or an
  array with two columns (one interval per row).
\<close>

datatype times_arg = Timestamps "real list" | Intervals "(real \<times> real) list"

text \<open>All entries of an array of intervals, for \<^verbatim>\<open>times.min()\<close>, \<^verbatim>\<open>times.max()\<close>.\<close>

definition entries :: "(real \<times> real) list \<Rightarrow> real list" where
  "entries iv = concat (map (\<lambda>(s, e). [s, e]) iv)"

text \<open>Selection by a boolean index array: \<^verbatim>\<open>a[keep]\<close>.\<close>

definition compress :: "bool list \<Rightarrow> 'a list \<Rightarrow> 'a list" where
  "compress keep xs = map snd (filter fst (zip keep xs))"

definition select_columns :: "ndarray2 \<Rightarrow> bool list \<Rightarrow> ndarray2" where
  "select_columns a keep =
     \<lparr>shape0 = shape0 a, shape1 = length (filter id keep), rows = map (compress keep) (rows a)\<rparr>"

definition select_rows :: "ndarray2 \<Rightarrow> bool list \<Rightarrow> ndarray2" where
  "select_rows a keep =
     \<lparr>shape0 = length (filter id keep), shape1 = shape1 a, rows = compress keep (rows a)\<rparr>"

text \<open>\<^verbatim>\<open>np.pad(a, ((0, 0), (before, after)), mode="constant")\<close>: zero columns on both sides.\<close>

definition np_pad :: "ndarray2 \<Rightarrow> nat \<Rightarrow> nat \<Rightarrow> ndarray2" where
  "np_pad a before after =
     \<lparr>shape0 = shape0 a, shape1 = before + shape1 a + after,
      rows = map (\<lambda>r. replicate before 0 @ r @ replicate after 0) (rows a)\<rparr>"

text \<open>\<^verbatim>\<open>np.max(a, axis=1)\<close> of an array with at least one column.\<close>

definition amax_rows :: "ndarray2 \<Rightarrow> real list" where
  "amax_rows a = map (\<lambda>r. fold max (tl r) (hd r)) (rows a)"

text \<open>\<^verbatim>\<open>np.round(x, n)\<close>: scale, round half to even, scale back.\<close>

definition rint :: "real \<Rightarrow> int" where
  "rint x = (let f = \<lfloor>x\<rfloor>; d = x - of_int f
             in if d < 1 / 2 then f else if d > 1 / 2 then f + 1 else if even f then f else f + 1)"

definition np_round :: "real \<Rightarrow> nat \<Rightarrow> real" where
  "np_round x n = of_int (rint (x * 10 ^ n)) / 10 ^ n"

text \<open>Elementwise product and in-place sum of one-dimensional arrays, with broadcasting.\<close>

definition broadcast_mult :: "real list \<Rightarrow> real list \<Rightarrow> error + real list" where
  "broadcast_mult a b =
     (if length a = length b then Inr (map2 (*) a b)
      else if length a = 1 then Inr (map (\<lambda>y. hd a * y) b)
      else if length b = 1 then Inr (map (\<lambda>x. x * hd b) a)
      else Inl ValueError)"

definition iadd :: "real list \<Rightarrow> real list \<Rightarrow> error + real list" where
  "iadd output x =
     (if length x = length output then Inr (map2 (+) output x)
      else if length x = 1 then Inr (map (\<lambda>y. y + hd x) output)
      else Inl ValueError)"

fun cumsum_from :: "real \<Rightarrow> real list \<Rightarrow> real list" where
  "cumsum_from acc [] = []"
| "cumsum_from acc (x # xs) = (acc + x) # cumsum_from (acc + x) xs"

definition cumsum :: "real list \<Rightarrow> real list" where
  "cumsum xs = cumsum_from 0 xs"

fun map_err :: "('a \<Rightarrow> error + 'b) \<Rightarrow> 'a list \<Rightarrow> error + 'b list" where
  "map_err f [] = Inr []"
| "map_err f (x # xs) = and_then (f x) (\<lambda>y. and_then (map_err f xs) (\<lambda>ys. Inr (y # ys)))"

text \<open>
  \<^verbatim>\<open>scipy.interpolate.interp1d(x, y, kind, bounds_error=False, fill_value=(below, above))\<close>,
  modelled from SciPy's documented behaviour for the kinds \<^verbatim>\<open>"linear"\<close> and \<^verbatim>\<open>"previous"\<close>
  and a one-dimensional \<open>y\<close>.  The constructor raises \<^verbatim>\<open>ValueError\<close> when \<open>x\<close> and \<open>y\<close> differ in
  length or are empty, and sorts the points by \<open>x\<close> (a stable sort).  The interpolant returns
  the fill values outside \<open>[min x, max x]\<close>; inside, \<^verbatim>\<open>"previous"\<close> is the value at the last
  point whose abscissa is at most the argument, and \<^verbatim>\<open>"linear"\<close> the straight line between
  that point and the next one.
\<close>

datatype kind = Linear | Previous

definition searchsorted_right :: "real list \<Rightarrow> real \<Rightarrow> nat" where
  "searchsorted_right xs v = length (takeWhile (\<lambda>a. a \<le> v) xs)"

definition previous_value :: "real list \<Rightarrow> real list \<Rightarrow> real \<Rightarrow> real" where
  "previous_value xs ys v = ys ! (max 1 (searchsorted_right xs v) - 1)"

definition linear_value :: "real list \<Rightarrow> real list \<Rightarrow> real \<Rightarrow> real" where
  "linear_value xs ys v =
     (let j = searchsorted_right xs v - 1
      in if Suc j \<ge> length xs then ys ! (length xs - 1)
         else ys ! j + (ys ! Suc j - ys ! j) / (xs ! Suc j - xs ! j) * (v - xs ! j))"

definition interp1d :: "kind \<Rightarrow> real list \<Rightarrow> real list \<Rightarrow> real \<Rightarrow> real \<Rightarrow> error + (real \<Rightarrow> real)" where
  "interp1d kind x y fill_below fill_above =
     (if length x \<noteq> length y \<or> x = [] then Inl ValueError
      else let xy = sort_key fst (zip x y); xs = map fst xy; ys = map snd xy
           in Inr (\<lambda>v. if v < hd xs then fill_below
                       else if v > last xs then fill_above
                       else (case kind of Previous \<Rightarrow> previous_value xs ys v
                                        | Linear \<Rightarrow> linear_value xs ys v)))"

text \<open>
  \<^verbatim>\<open>scipy.signal.convolve(x, k, mode="same")\<close>, modelled from SciPy's documented behaviour:
  the full convolution of \<open>x\<close> and \<open>k\<close>, cut to the length of \<open>x\<close> around its centre, that is
  from offset \<open>(length k - 1) div 2\<close>.  An empty kernel is taken to raise \<^verbatim>\<open>ValueError\<close>, as
  \<^verbatim>\<open>numpy.convolve\<close> does.
\<close>

definition convolve_same :: "real list \<Rightarrow> real list \<Rightarrow> error + real list" where
  "convolve_same x k =
     (if k = [] then Inl ValueError
      else Inr (map (\<lambda>i. \<Sum>j\<leftarrow>[0..<length k].
                            (let m = int i + int ((length k - 1) div 2) - int j
                             in if 0 \<le> m \<and> m < int (length x) then x ! nat m * k ! j else 0))
                  [0..<length x]))"

section \<open>\<^verbatim>\<open>_fast_synthesize\<close>\<close>

text \<open>
  One cycle of \<open>10 ^ n_dec * fs\<close> samples is generated; the returned flat iterator over the
  strided view is the list of its \<open>n_repeats * n_samples\<close> elements.  \<open>n_dec\<close> is a number of
  decimal places, a natural number.  The division by the length of an empty cycle raises
  \<^verbatim>\<open>ZeroDivisionError\<close>, a negative number of repetitions \<^verbatim>\<open>ValueError\<close>.
\<close>

definition short_signal :: "real \<Rightarrow> nat \<Rightarrow> int \<Rightarrow> (real \<Rightarrow> real) \<Rightarrow> real list" where
  "short_signal frequency n_dec fs function =
     (let frequency = np_round frequency n_dec;
          n_samples = py_int (10 ^ n_dec * real_of_int fs)
      in map (\<lambda>k. function (2 * pi * k * frequency / real_of_int fs)) (arange (real_of_int n_samples)))"

definition fast_synthesize :: "real \<Rightarrow> nat \<Rightarrow> int \<Rightarrow> (real \<Rightarrow> real) \<Rightarrow> int \<Rightarrow> error + real list" where
  "fast_synthesize frequency n_dec fs function len =
     (let cycle = short_signal frequency n_dec fs function
      in if length cycle = 0 then Inl ZeroDivisionError
         else let n_repeats = \<lceil>real_of_int len / real (length cycle)\<rceil>
              in if n_repeats < 0 then Inl ValueError
                 else Inr (concat (replicate (nat n_repeats) cycle)))"

section \<open>\<^verbatim>\<open>time_frequency\<close>\<close>

text \<open>
  Lines 109 to 134: time stamps become consecutive intervals, the default length is taken
  from the largest time, a trailing interval is appended to converted time stamps whose
  number differs from the number of columns of \<open>gram\<close>, and the two shape checks follow.
  The result is the length, the duration in seconds and the intervals.
\<close>

definition tf_intervals ::
  "ndarray2 \<Rightarrow> real list \<Rightarrow> times_arg \<Rightarrow> int \<Rightarrow> int option \<Rightarrow> error + (int \<times> real \<times> (real \<times> real) list)" where
  "tf_intervals gram frequencies tms fs len =
     (let time_converted = (case tms of Timestamps t \<Rightarrow> True | Intervals iv \<Rightarrow> False);
          times1 = (case tms of Timestamps t \<Rightarrow> zip (butlast t) (tl t) | Intervals iv \<Rightarrow> iv)
      in and_then (case len of
                     Some n \<Rightarrow> Inr n
                   | None \<Rightarrow> and_then (np_max (entries times1)) (\<lambda>m. Inr (py_int (m * real_of_int fs))))
           (\<lambda>n. if fs = 0 then Inl ZeroDivisionError
                else let last_time_in_secs = real_of_int n / real_of_int fs
                     in and_then (if time_converted \<and> length times1 \<noteq> shape1 gram
                                  then and_then (np_max (entries times1))
                                         (\<lambda>m. Inr (times1 @ [(m, last_time_in_secs)]))
                                  else Inr times1)
                          (\<lambda>times2. if length times2 \<noteq> shape1 gram then Inl ShapeMismatch
                                    else if length frequencies \<noteq> shape0 gram then Inl ShapeMismatch
                                    else Inr (n, last_time_in_secs, times2))))"

text \<open>Lines 136 to 152: a silent column before the first and after the last interval.\<close>

definition tf_pad ::
  "ndarray2 \<Rightarrow> (real \<times> real) list \<Rightarrow> real \<Rightarrow> error + (ndarray2 \<times> (real \<times> real) list)" where
  "tf_pad gram tms last_time_in_secs =
     and_then (np_min (entries tms)) (\<lambda>tmin.
     and_then (np_max (entries tms)) (\<lambda>tmax.
       let stacking = (if tmin > 0 then [(0, tmin)] else []) @ tms
                        @ (if tmax < last_time_in_secs then [(tmax, last_time_in_secs)] else [])
       in Inr (np_pad gram (if tmin > 0 then 1 else 0) (if tmax < last_time_in_secs then 1 else 0),
               stacking)))"

text \<open>
  Lines 154 to 162: the intervals that overlap \<open>[0, last_time_in_secs]\<close> are kept and clipped
  into it, and negative magnitudes become zero.
\<close>

definition tf_overlap ::
  "ndarray2 \<Rightarrow> (real \<times> real) list \<Rightarrow> real \<Rightarrow> ndarray2 \<times> (real \<times> real) list" where
  "tf_overlap gram tms last_time_in_secs =
     (let idx = map (\<lambda>(s, e). e \<ge> 0 \<and> s \<le> last_time_in_secs) tms;
          clip = (\<lambda>x. min (max x 0) last_time_in_secs);
          gram1 = select_columns gram idx
      in (gram1\<lparr>rows := map (map (\<lambda>x. max x 0)) (rows gram1)\<rparr>,
          map (\<lambda>(s, e). (clip s, clip e)) (compress idx tms)))"

definition tf_grid ::
  "ndarray2 \<Rightarrow> real list \<Rightarrow> times_arg \<Rightarrow> int \<Rightarrow> int option \<Rightarrow> error + (int \<times> ndarray2 \<times> (real \<times> real) list)" where
  "tf_grid gram frequencies tms fs len =
     and_then (tf_intervals gram frequencies tms fs len) (\<lambda>(n, last_time_in_secs, times2).
     and_then (tf_pad gram times2 last_time_in_secs) (\<lambda>(gram1, times3).
       (case tf_overlap gram1 times3 last_time_in_secs of (gram2, times4) \<Rightarrow> Inr (n, gram2, times4))))"

text \<open>Lines 171 to 175: the rows whose largest magnitude reaches the threshold.\<close>

definition freq_keep :: "ndarray2 \<Rightarrow> real \<Rightarrow> bool list" where
  "freq_keep gram threshold = map (\<lambda>m. m \<ge> threshold) (amax_rows gram)"

text \<open>
  Lines 177 to 193: the per-sample envelope of every kept row.  With more than one interval
  each row is interpolated with kind \<^verbatim>\<open>"previous"\<close> at the sample indices, keyed by the interval
  starts times \<open>fs\<close>, with the first and last column as fill values.  Otherwise
  \<^verbatim>\<open>np.tile(gram[:, 0], (1, length))\<close> is one row: the first column repeated \<open>length\<close> times.
\<close>

definition tf_signal :: "ndarray2 \<Rightarrow> (real \<times> real) list \<Rightarrow> int \<Rightarrow> int \<Rightarrow> error + real list list" where
  "tf_signal gram tms fs n =
     (let n_times = length tms
      in if n_times > 1
         then map_err (\<lambda>row.
                and_then (interp1d Previous (map (\<lambda>(s, e). s * real_of_int fs) tms)
                            (take n_times row) (hd row) (last row))
                  (\<lambda>interpolator. Inr (map interpolator (arange (real_of_int n)))))
                (rows gram)
         else Inr [concat (replicate (nat n) (map hd (rows gram)))])"

text \<open>
  Lines 195 to 205: every kept frequency is synthesized, its envelope smoothed with a boxcar
  of two periods and the product mixed into the output.  Dividing by the frequency zero
  gives infinity, whose conversion to an integer raises \<^verbatim>\<open>OverflowError\<close>; a negative period
  raises \<^verbatim>\<open>ValueError\<close> in \<^verbatim>\<open>np.ones\<close>; \<^verbatim>\<open>signal[n]\<close> raises \<^verbatim>\<open>IndexError\<close> beyond the last row.
\<close>

definition boxcar :: "int \<Rightarrow> error + real list" where
  "boxcar period =
     (if period < 0 then Inl ValueError else Inr (replicate (nat period) (1 / real_of_int period)))"

fun tf_mix ::
  "(nat \<times> real) list \<Rightarrow> real list list \<Rightarrow> nat \<Rightarrow> int \<Rightarrow> (real \<Rightarrow> real) \<Rightarrow> int \<Rightarrow> real list \<Rightarrow> error + real list" where
  "tf_mix [] signal n_dec fs function len output = Inr output"
| "tf_mix ((n, frequency) # rest) signal n_dec fs function len output =
     and_then (fast_synthesize frequency n_dec fs function len) (\<lambda>wave.
       if frequency = 0 then Inl OverflowError
       else and_then (boxcar (2 * py_int (real_of_int fs / frequency))) (\<lambda>filter.
         if n \<ge> length signal then Inl IndexError
         else and_then (convolve_same (signal ! n) filter) (\<lambda>signal_n.
              and_then (broadcast_mult (take (length signal_n) wave) signal_n) (\<lambda>product.
              and_then (iadd output product) (\<lambda>output'.
                tf_mix rest signal n_dec fs function len output')))))"

text \<open>
  Lines 207 to 212: the peak normalization.  \<open>tiny\<close> is \<^verbatim>\<open>np.finfo(float64).tiny\<close>, the smallest
  positive normal double.  The maximum of an empty output raises \<^verbatim>\<open>ValueError\<close>.
\<close>

definition tiny :: real where
  "tiny = 1 / 2 ^ 1022"

definition tf_normalize :: "real list \<Rightarrow> error + real list" where
  "tf_normalize output =
     and_then (np_max (map abs output)) (\<lambda>norm.
       if norm \<ge> tiny then Inr (map (\<lambda>x. x / norm) output) else Inr output)"

definition time_frequency ::
  "ndarray2 \<Rightarrow> real list \<Rightarrow> times_arg \<Rightarrow> int \<Rightarrow> (real \<Rightarrow> real) \<Rightarrow> int option \<Rightarrow> nat \<Rightarrow> real \<Rightarrow> error + real list" where
  "time_frequency gram frequencies tms fs function len n_dec threshold =
     and_then (tf_grid gram frequencies tms fs len) (\<lambda>(n, gram1, times1).
     and_then (zeros n) (\<lambda>output.
       if shape1 gram1 = 0 then Inr output
       else let keep = freq_keep gram1 threshold;
                gram2 = select_rows gram1 keep;
                frequencies1 = compress keep frequencies
            in and_then (tf_signal gram2 times1 fs n) (\<lambda>signal.
               and_then (tf_mix (enumerate 0 frequencies1) signal n_dec fs function n output)
                 tf_normalize)))"

section \<open>\<^verbatim>\<open>pitch_contour\<close>\<close>

text \<open>
  Non-positive frequencies are squashed to zero (\<^verbatim>\<open>nan_to_num\<close> is the identity on reals), the
  angular steps and the amplitudes are interpolated at the sample indices with fill value
  zero, and the output is the amplitude times the function at the running sum of the steps.
  Without \<open>amplitudes\<close> the amplitude is \<^verbatim>\<open>np.ones((length,))\<close>.  A sampling rate of zero makes
  NumPy divide by zero without raising, which the reals cannot express: the properties
  below are stated for a positive rate.
\<close>

definition ones :: "int \<Rightarrow> error + real list" where
  "ones n = (if n < 0 then Inl ValueError else Inr (replicate (nat n) 1))"

definition pitch_contour ::
  "real list \<Rightarrow> real list \<Rightarrow> int \<Rightarrow> real list option \<Rightarrow> (real \<Rightarrow> real) \<Rightarrow> int option \<Rightarrow> kind \<Rightarrow> error + real list" where
  "pitch_contour tms frequencies fs amplitudes function len kind =
     (let fs = real_of_int fs
      in and_then (case len of
                     Some n \<Rightarrow> Inr n
                   | None \<Rightarrow> and_then (np_max tms) (\<lambda>m. Inr (py_int (m * fs))))
           (\<lambda>n. let frequencies1 = map (\<lambda>f. max f 0) frequencies
                in and_then (interp1d kind (map (\<lambda>t. t * fs) tms)
                               (map (\<lambda>f. 2 * pi * f / fs) frequencies1) 0 0) (\<lambda>f_interp.
                   let f_est = map f_interp (arange (real_of_int n))
                   in and_then (case amplitudes of
                                  None \<Rightarrow> ones n
                                | Some a \<Rightarrow> and_then (interp1d kind (map (\<lambda>t. t * fs) tms) a 0 0)
                                             (\<lambda>a_interp. Inr (map a_interp (arange (real_of_int n)))))
                        (\<lambda>a_est. broadcast_mult a_est (map function (cumsum f_est))))))"

section \<open>Properties of \<^verbatim>\<open>clicks\<close>\<close>











text \<open>
  Claim C8.  The loop of \<^verbatim>\<open>clicks\<close> ends at the first click that reaches the end of the buffer.
  With a click of three samples, a buffer of six samples and \<open>fs = 8\<close>, the click at 0.5 s
  is written truncated at sample 4 and the loop is left: the click at 0.625 s, which starts
  inside the buffer at sample 5, is never placed, and sample 5 holds the second sample of
  the first click.
\<close>

theorem clicks_break_drops_later_click:
  "clicks [1/2, 5/8] 8 (Some [1, 2, 3]) (Some 6) = Inr [0, 0, 0, 0, 1, 2]"
  by (simp add: clicks_def Let_def and_then_def py_int_def zeros_def set_slice_def slice_index_def
        slice_upto_def eval_nat_numeral)

text \<open>
  The documented example: one click at 0.5 s and \<open>fs = 8000\<close> with the default click and the
  default length gives 4000 zeros, the 800 samples of the default click and one zero.
\<close>

lemma length_default_click_8000: "length (default_click 8000) = 800"
  by (simp add: default_click_def arange_def)

lemma clicks_default_example:
  "clicks [1/2] 8000 None None = Inr (replicate 4000 0 @ default_click 8000 @ [0])"
  by (simp add: clicks_def Let_def and_then_def np_max_def py_int_def zeros_def set_slice_def
        slice_index_def length_default_click_8000)

section \<open>Properties of \<^verbatim>\<open>time_frequency\<close>\<close>

lemmas tf_eval = Let_def and_then_def np_max_def np_min_def py_int_def zeros_def
  entries_def compress_def select_columns_def select_rows_def np_pad_def amax_rows_def rint_def np_round_def
  broadcast_mult_def iadd_def searchsorted_right_def previous_value_def interp1d_def
  convolve_same_def short_signal_def fast_synthesize_def tf_intervals_def tf_pad_def tf_overlap_def tf_grid_def
  freq_keep_def tf_signal_def boxcar_def tf_normalize_def time_frequency_def arange_def eval_nat_numeral

lemma np_max_Inr:
  assumes "np_max xs = Inr m"
  shows "xs \<noteq> [] \<and> m = Max (set xs)"
proof (cases xs)
  case Nil
  with assms show ?thesis by (simp add: np_max_def)
next
  case (Cons x r)
  with assms have "m = fold max r x" by (simp add: np_max_def)
  then show ?thesis using Cons Max.set_eq_fold[of x r] by simp
qed

lemma np_max_nonempty: "xs \<noteq> [] \<Longrightarrow> np_max xs = Inr (Max (set xs))"
  using Max.set_eq_fold[of "hd xs" "tl xs"] by (cases xs) (simp_all add: np_max_def)

lemma tiny_pos: "0 < tiny" and tiny_lt_one: "tiny < 1"
  by (simp_all add: tiny_def)

lemma tf_normalize_peak:
  assumes "tf_normalize m = Inr out"
  shows "(np_max (map abs out) = Inr 1 \<or> (\<forall>x \<in> set out. \<bar>x\<bar> < tiny))
           \<and> (\<forall>x \<in> set out. - 1 \<le> x \<and> x \<le> 1)"
proof -
  obtain p where p: "np_max (map abs m) = Inr p"
    and out: "out = (if p \<ge> tiny then map (\<lambda>x. x / p) m else m)"
    using assms by (auto simp: tf_normalize_def and_then_def split: sum.splits if_splits)
  from np_max_Inr[OF p] have ne: "m \<noteq> []" and pmax: "p = Max (set (map abs m))" by simp_all
  have le: "\<bar>x\<bar> \<le> p" if "x \<in> set m" for x
    using that pmax by simp
  have "p \<in> set (map abs m)"
    unfolding pmax using ne by (intro Max_in) simp_all
  then obtain y where y: "y \<in> set m" "p = \<bar>y\<bar>" by auto
  show ?thesis
  proof (cases "p \<ge> tiny")
    case True
    then have p0: "0 < p" using tiny_pos by linarith
    have o: "out = map (\<lambda>x. x / p) m" using out True by simp
    have ab: "map abs out = map (\<lambda>x. \<bar>x\<bar> / p) m"
      using p0 by (simp add: o)
    have one_in: "1 \<in> set (map abs out)"
      unfolding ab using y p0 by (auto simp: image_iff intro!: bexI[of _ y])
    have all_le: "\<forall>v \<in> set (map abs out). v \<le> 1"
      unfolding ab using le p0 by (auto simp: divide_le_eq)
    have "Max (set (map abs out)) = 1"
      using one_in all_le by (intro Max_eqI) auto
    moreover have "map abs out \<noteq> []" using ne o by simp
    ultimately have "np_max (map abs out) = Inr 1"
      using np_max_nonempty[of "map abs out"] by simp
    moreover have "\<forall>x \<in> set out. - 1 \<le> x \<and> x \<le> 1"
    proof
      fix x assume "x \<in> set out"
      then have "\<bar>x\<bar> \<in> set (map abs out)" by simp
      with all_le have "\<bar>x\<bar> \<le> 1" by blast
      then show "- 1 \<le> x \<and> x \<le> 1" by linarith
    qed
    ultimately show ?thesis by blast
  next
    case False
    then have o: "out = m" using out by simp
    have "\<forall>x \<in> set out. \<bar>x\<bar> < tiny"
      using le False o by fastforce
    moreover from this have "\<forall>x \<in> set out. - 1 \<le> x \<and> x \<le> 1"
      using tiny_lt_one by fastforce
    ultimately show ?thesis by blast
  qed
qed

lemma compress_all_False:
  assumes "\<forall>b \<in> set keep. \<not> b"
  shows "compress keep xs = []"
proof -
  have "filter fst (zip keep xs) = []"
    using assms by (auto simp: filter_empty_conv dest: set_zip_leftD)
  then show ?thesis by (simp add: compress_def)
qed

lemma tf_normalize_exact:
  assumes "tf_normalize m = Inr out"
  shows "\<exists>p. np_max (map abs m) = Inr p
           \<and> (tiny \<le> p \<longrightarrow> out = map (\<lambda>x. x / p) m \<and> np_max (map abs out) = Inr 1)
           \<and> (p < tiny \<longrightarrow> out = m \<and> (\<forall>x \<in> set out. \<bar>x\<bar> < tiny))"
proof -
  obtain p where p: "np_max (map abs m) = Inr p"
    and out: "out = (if p \<ge> tiny then map (\<lambda>x. x / p) m else m)"
    using assms by (auto simp: tf_normalize_def and_then_def split: sum.splits if_splits)
  from np_max_Inr[OF p] have pmax: "p = Max (set (map abs m))" by simp
  have le: "\<bar>x\<bar> \<le> p" if "x \<in> set m" for x
    using that pmax by simp
  have big: "out = map (\<lambda>x. x / p) m \<and> np_max (map abs out) = Inr 1" if t: "tiny \<le> p"
  proof -
    have o: "out = map (\<lambda>x. x / p) m" using out t by simp
    have "\<not> (\<forall>x \<in> set out. \<bar>x\<bar> < tiny)"
    proof
      assume small: "\<forall>x \<in> set out. \<bar>x\<bar> < tiny"
      have p0: "0 < p" using t tiny_pos by linarith
      have "m \<noteq> []" using np_max_Inr[OF p] by simp
      then have "p \<in> set (map abs m)"
        unfolding pmax by (intro Max_in) simp_all
      then obtain y where y: "y \<in> set m" "p = \<bar>y\<bar>" by auto
      from y(1) have "y / p \<in> (\<lambda>x. x / p) ` set m" by (rule imageI)
      then have "y / p \<in> set out" unfolding o by simp
      with small have "\<bar>y / p\<bar> < tiny" by blast
      moreover have "\<bar>y / p\<bar> = 1" using y(2) p0 by simp
      ultimately show False using tiny_lt_one by linarith
    qed
    then have "np_max (map abs out) = Inr 1"
      using tf_normalize_peak[OF assms] by blast
    with o show ?thesis by simp
  qed
  have small: "out = m \<and> (\<forall>x \<in> set out. \<bar>x\<bar> < tiny)" if t: "p < tiny"
  proof -
    have o: "out = m" using out t by simp
    moreover have "\<forall>x \<in> set m. \<bar>x\<bar> < tiny"
      using le t by fastforce
    ultimately show ?thesis by simp
  qed
  show ?thesis using p big small by blast
qed

lemma time_frequency_unfold:
  assumes "time_frequency gram frequencies tms fs function len n_dec threshold = Inr out"
    and "tf_grid gram frequencies tms fs len = Inr (n, gram1, times1)"
  shows "(shape1 gram1 = 0 \<longrightarrow> out = replicate (nat n) 0)
         \<and> (shape1 gram1 \<noteq> 0 \<longrightarrow>
              (\<exists>signal mixed.
                 tf_signal (select_rows gram1 (freq_keep gram1 threshold)) times1 fs n = Inr signal
               \<and> tf_mix (enumerate 0 (compress (freq_keep gram1 threshold) frequencies)) signal n_dec fs
                     function n (replicate (nat n) 0) = Inr mixed
               \<and> tf_normalize mixed = Inr out))"
  using assms
  by (auto simp: time_frequency_def and_then_def zeros_def Let_def split: sum.splits if_splits)

lemma tf_normalize_zeros:
  assumes "tf_normalize (replicate k 0) = Inr out"
  shows "out = replicate k 0"
proof -
  from tf_normalize_exact[OF assms] obtain p where
    p: "np_max (map abs (replicate k (0 :: real))) = Inr p"
    and s: "p < tiny \<longrightarrow> out = replicate k 0"
    by blast
  from np_max_Inr[OF p] have "k \<noteq> 0" and "p = Max (set (map abs (replicate k (0 :: real))))"
    by auto
  then have "p = 0" by simp
  then show ?thesis using s tiny_pos by simp
qed

text \<open>
  Claim C2, as stated, fails.  An interval that starts exactly at the end of the requested
  duration survives the overlap filter and is clipped to the empty interval at the end; its
  row is kept, because its magnitude 5 reaches the threshold, but the envelope is zero at
  every sample index.  The mixed buffer is zero, is not divided, and the returned peak is 0,
  not 1.
\<close>

theorem peak_law_counterexample:
  "tf_grid \<lparr>shape0 = 1, shape1 = 1, rows = [[5]]\<rparr> [1] (Intervals [(2, 3)]) 1 (Some 2)
     = Inr (2, \<lparr>shape0 = 1, shape1 = 2, rows = [[0, 5]]\<rparr>, [(0, 2), (2, 2)])
   \<and> freq_keep \<lparr>shape0 = 1, shape1 = 2, rows = [[0, 5]]\<rparr> (1/100) = [True]
   \<and> time_frequency \<lparr>shape0 = 1, shape1 = 1, rows = [[5]]\<rparr> [1] (Intervals [(2, 3)]) 1 sin (Some 2) 0 (1/100)
     = Inr [0, 0]
   \<and> np_max (map abs [0, 0]) \<noteq> Inr 1"
  by (simp add: tf_eval tiny_def)

text \<open>
  Claim C2, amended.  Let \<^verbatim>\<open>time_frequency\<close> return a buffer.  If no interval survives, or no
  row reaches the threshold, the buffer is all zeros.  Otherwise let \<open>mixed\<close> be the sum of
  the kept rows' waves times their smoothed envelopes, and \<open>p\<close> its largest magnitude: when
  \<open>p\<close> is at least \<open>tiny\<close> the buffer is \<open>mixed\<close> divided by \<open>p\<close> and its largest magnitude
  is exactly 1; when \<open>p\<close> is below \<open>tiny\<close> (which a kept row does not exclude) the buffer is
  \<open>mixed\<close> itself, every sample below \<open>tiny\<close> in magnitude.  In every case each sample lies
  within \<open>[-1, 1]\<close>.
\<close>

theorem time_frequency_peak_law:
  assumes ret: "time_frequency gram frequencies tms fs function len n_dec threshold = Inr out"
    and grid: "tf_grid gram frequencies tms fs len = Inr (n, gram1, times1)"
    and keep: "keep = freq_keep gram1 threshold"
  shows "(\<forall>x \<in> set out. - 1 \<le> x \<and> x \<le> 1)
         \<and> (shape1 gram1 = 0 \<or> (\<forall>b \<in> set keep. \<not> b) \<longrightarrow> out = replicate (nat n) 0)
         \<and> (shape1 gram1 \<noteq> 0 \<longrightarrow>
              (\<exists>signal mixed p.
                 tf_signal (select_rows gram1 keep) times1 fs n = Inr signal
               \<and> tf_mix (enumerate 0 (compress keep frequencies)) signal n_dec fs
                     function n (replicate (nat n) 0) = Inr mixed
               \<and> np_max (map abs mixed) = Inr p
               \<and> (tiny \<le> p \<longrightarrow> out = map (\<lambda>x. x / p) mixed \<and> np_max (map abs out) = Inr 1)
               \<and> (p < tiny \<longrightarrow> out = mixed \<and> (\<forall>x \<in> set out. \<bar>x\<bar> < tiny))))"
proof -
  note u = time_frequency_unfold[OF ret grid, folded keep]
  have range: "\<forall>x \<in> set out. - 1 \<le> x \<and> x \<le> 1"
  proof (cases "shape1 gram1 = 0")
    case True
    then have "out = replicate (nat n) 0" using u by blast
    then show ?thesis by simp
  next
    case False
    then obtain mixed where "tf_normalize mixed = Inr out" using u by blast
    then show ?thesis using tf_normalize_peak by blast
  qed
  have silent: "shape1 gram1 = 0 \<or> (\<forall>b \<in> set keep. \<not> b) \<longrightarrow> out = replicate (nat n) 0"
  proof
    assume h: "shape1 gram1 = 0 \<or> (\<forall>b \<in> set keep. \<not> b)"
    show "out = replicate (nat n) 0"
    proof (cases "shape1 gram1 = 0")
      case True
      then show ?thesis using u by blast
    next
      case False
      with h have none: "\<forall>b \<in> set keep. \<not> b" by blast
      from False u obtain signal mixed where
        m: "tf_mix (enumerate 0 (compress keep frequencies)) signal n_dec fs
              function n (replicate (nat n) 0) = Inr mixed"
        and nz: "tf_normalize mixed = Inr out"
        by blast
      have "compress keep frequencies = []"
        using none by (rule compress_all_False)
      then have "mixed = replicate (nat n) 0" using m by simp
      then show ?thesis using nz tf_normalize_zeros by blast
    qed
  qed
  have mix: "shape1 gram1 \<noteq> 0 \<longrightarrow>
              (\<exists>signal mixed p.
                 tf_signal (select_rows gram1 keep) times1 fs n = Inr signal
               \<and> tf_mix (enumerate 0 (compress keep frequencies)) signal n_dec fs
                     function n (replicate (nat n) 0) = Inr mixed
               \<and> np_max (map abs mixed) = Inr p
               \<and> (tiny \<le> p \<longrightarrow> out = map (\<lambda>x. x / p) mixed \<and> np_max (map abs out) = Inr 1)
               \<and> (p < tiny \<longrightarrow> out = mixed \<and> (\<forall>x \<in> set out. \<bar>x\<bar> < tiny)))"
  proof
    assume "shape1 gram1 \<noteq> 0"
    with u obtain signal mixed where
      s: "tf_signal (select_rows gram1 keep) times1 fs n = Inr signal"
      and m: "tf_mix (enumerate 0 (compress keep frequencies)) signal n_dec fs
              function n (replicate (nat n) 0) = Inr mixed"
      and nz: "tf_normalize mixed = Inr out"
      by blast
    from tf_normalize_exact[OF nz] obtain p where
      "np_max (map abs mixed) = Inr p"
      "tiny \<le> p \<longrightarrow> out = map (\<lambda>x. x / p) mixed \<and> np_max (map abs out) = Inr 1"
      "p < tiny \<longrightarrow> out = mixed \<and> (\<forall>x \<in> set out. \<bar>x\<bar> < tiny)"
      by blast
    with s m show "\<exists>signal mixed p.
                 tf_signal (select_rows gram1 keep) times1 fs n = Inr signal
               \<and> tf_mix (enumerate 0 (compress keep frequencies)) signal n_dec fs
                     function n (replicate (nat n) 0) = Inr mixed
               \<and> np_max (map abs mixed) = Inr p
               \<and> (tiny \<le> p \<longrightarrow> out = map (\<lambda>x. x / p) mixed \<and> np_max (map abs out) = Inr 1)
               \<and> (p < tiny \<longrightarrow> out = mixed \<and> (\<forall>x \<in> set out. \<bar>x\<bar> < tiny))"
      by blast
  qed
  show ?thesis using range silent mix by (intro conjI)
qed

theorem time_frequency_peak_law_witness:
  "time_frequency \<lparr>shape0 = 1, shape1 = 1, rows = [[3]]\<rparr> [1] (Intervals [(0, 2)]) 1 cos (Some 2) 0 (1/100)
     = Inr [1/2, 1]
   \<and> tf_mix (enumerate 0 [1]) [[3, 3]] 0 1 cos 2 (replicate (nat 2) 0) = Inr [3/2, 3]
   \<and> np_max (map abs [3/2, 3]) = Inr 3
   \<and> np_max (map abs [1/2, 1]) = Inr 1"
proof -
  let ?g = "\<lparr>shape0 = 1, shape1 = 1, rows = [[3]]\<rparr>"
  have ret: "time_frequency ?g [1] (Intervals [(0, 2)]) 1 cos (Some 2) 0 (1/100) = Inr [1/2, 1]"
    by (simp add: tf_eval tiny_def)
  have grid: "tf_grid ?g [1] (Intervals [(0, 2)]) 1 (Some 2) = Inr (2, ?g, [(0, 2)])"
    by (simp add: tf_eval)
  have keep: "[True] = freq_keep ?g (1/100)"
    by (simp add: tf_eval)
  have sel: "select_rows ?g [True] = ?g" and cf: "compress [True] [1 :: real] = [1]"
    by (simp_all add: tf_eval)
  have sig: "tf_signal ?g [(0, 2)] 1 2 = Inr [[3, 3]]"
    by (simp add: tf_eval)
  have mixv: "tf_mix (enumerate 0 [1]) [[3, 3]] 0 1 cos 2 (replicate (nat 2) 0) = Inr [3/2, 3]"
    by (simp add: tf_eval)
  have pv: "np_max (map abs [3/2, 3 :: real]) = Inr 3"
    by (simp add: tf_eval)
  have nz: "shape1 ?g \<noteq> 0" by simp
  let ?P = "\<lambda>signal mixed p.
        tf_signal (select_rows ?g [True]) [(0, 2)] 1 2 = Inr signal
      \<and> tf_mix (enumerate 0 (compress [True] [1])) signal 0 1 cos 2 (replicate (nat 2) 0) = Inr mixed
      \<and> np_max (map abs mixed) = Inr p
      \<and> (tiny \<le> p \<longrightarrow> [1/2, 1] = map (\<lambda>x. x / p) mixed \<and> np_max (map abs [1/2, 1]) = Inr 1)
      \<and> (p < tiny \<longrightarrow> [1/2, 1] = mixed \<and> (\<forall>x \<in> set [1/2, 1]. \<bar>x\<bar> < tiny))"
  note law = time_frequency_peak_law[OF ret grid keep]
  have "\<exists>signal mixed p. ?P signal mixed p"
    by (rule law[THEN conjunct2, THEN conjunct2, THEN mp, OF nz])
  then obtain signal where "\<exists>mixed p. ?P signal mixed p" ..
  then obtain mixed where "\<exists>p. ?P signal mixed p" ..
  then obtain p where P: "?P signal mixed p" ..
  from P have a: "tf_signal (select_rows ?g [True]) [(0, 2)] 1 2 = Inr signal"
    by (rule conjunct1)
  from P have b: "tf_mix (enumerate 0 (compress [True] [1])) signal 0 1 cos 2 (replicate (nat 2) 0) = Inr mixed"
    by (rule conjunct2[THEN conjunct1])
  from P have c: "np_max (map abs mixed) = Inr p"
    by (rule conjunct2[THEN conjunct2, THEN conjunct1])
  from P have d: "tiny \<le> p \<longrightarrow> [1/2, 1] = map (\<lambda>x. x / p) mixed \<and> np_max (map abs [1/2, 1]) = Inr 1"
    by (rule conjunct2[THEN conjunct2, THEN conjunct2, THEN conjunct1])
  have "Inr [[3, 3]] = (Inr signal :: error + real list list)"
    using a unfolding sel sig .
  then have sg: "[[3, 3]] = signal" by (simp only: sum.inject)
  have "Inr [3/2, 3] = (Inr mixed :: error + real list)"
    using b unfolding cf sg[symmetric] mixv .
  then have mv: "[3/2, 3] = mixed" by (simp only: sum.inject)
  have "Inr 3 = (Inr p :: error + real)"
    using c unfolding mv[symmetric] pv .
  then have "p = 3" by (simp only: sum.inject)
  moreover have "tiny \<le> 3" using tiny_lt_one by linarith
  ultimately have "np_max (map abs [1/2, 1]) = Inr 1" using d by blast
  with ret mixv pv show ?thesis by (intro conjI)
qed

text \<open>
  The shape checks.  With intervals, and with at least two time stamps, the explicit check
  is the only error of the first stage: it is raised exactly when the number of intervals
  (after the trailing interval has been appended to time stamps that fall short) differs
  from the number of columns, or the number of frequencies from the number of rows.
\<close>

lemma tf_intervals_of_intervals:
  assumes "fs \<noteq> 0"
  shows "tf_intervals gram frequencies (Intervals iv) fs (Some n) =
           (if length iv \<noteq> shape1 gram \<or> length frequencies \<noteq> shape0 gram then Inl ShapeMismatch
            else Inr (n, real_of_int n / real_of_int fs, iv))"
  using assms by (simp add: tf_intervals_def and_then_def)

lemma tf_intervals_of_timestamps:
  assumes "fs \<noteq> 0" and "2 \<le> length t"
  shows "tf_intervals gram frequencies (Timestamps t) fs (Some n) = Inl ShapeMismatch
           \<longleftrightarrow> (length t \<noteq> shape1 gram \<and> length t - 1 \<noteq> shape1 gram)
                 \<or> length frequencies \<noteq> shape0 gram"
proof -
  obtain a b r where t: "t = a # b # r"
    using assms(2) by (cases t; cases "tl t") auto
  have ne: "entries (zip (butlast t) (tl t)) \<noteq> []"
    unfolding t by (simp add: entries_def)
  from ne obtain m where m: "np_max (entries (zip (butlast t) (tl t))) = Inr m"
    using np_max_nonempty by blast
  show ?thesis
    using assms by (auto simp: tf_intervals_def and_then_def Let_def m)
qed

text \<open>
  Claim C4.  A single time stamp for a gram with a single column has the documented shape
  \<open>(gram.shape[1],)\<close>.  The conversion leaves no interval, and the maximum of the empty array,
  needed for the trailing interval, raises \<^verbatim>\<open>ValueError\<close> before the shape checks are reached.
\<close>

theorem single_timestamp_raises:
  "time_frequency \<lparr>shape0 = 1, shape1 = 1, rows = [[1]]\<rparr> [440] (Timestamps [0]) 8000 sin (Some 8000) 1 (1/100)
     = Inl ValueError"
  by (simp add: time_frequency_def tf_grid_def tf_intervals_def and_then_def np_max_def entries_def)

text \<open>
  The single-interval branch of the envelope: one row that repeats the first column.  It
  is the held magnitude for a gram of one row, and the two magnitudes interleaved for a
  gram of two rows.
\<close>

lemma single_interval_one_row_held:
  "tf_signal \<lparr>shape0 = 1, shape1 = 1, rows = [[v]]\<rparr> [iv] fs n = Inr [replicate (nat n) v]"
proof -
  have "concat (replicate k [v]) = replicate k v" for k
    by (induction k) simp_all
  then show ?thesis by (simp add: tf_signal_def)
qed

lemma single_interval_two_rows_one_row:
  "tf_signal \<lparr>shape0 = 2, shape1 = 1, rows = [[v], [w]]\<rparr> [iv] fs n
     = Inr [concat (replicate (nat n) [v, w])]"
  by (simp add: tf_signal_def)

text \<open>
  Claim C5.  One interval that covers the whole duration and two rows above the threshold:
  \<^verbatim>\<open>np.tile(gram[:, 0], (1, length))\<close> is a single row of \<open>2 * length\<close> samples, the product
  with the wave cannot be broadcast, and the call raises \<^verbatim>\<open>ValueError\<close> instead of holding both
  magnitudes over the \<open>length\<close> output samples.
\<close>

theorem single_interval_two_rows_raises:
  "time_frequency \<lparr>shape0 = 2, shape1 = 1, rows = [[1], [1]]\<rparr> [1, 2] (Intervals [(0, 1)]) 4 sin (Some 4) 0 (1/100)
     = Inl ValueError"
  by (simp add: tf_eval)




section \<open>Properties of \<^verbatim>\<open>_fast_synthesize\<close>\<close>

lemma periodic_nat:
  assumes "\<forall>x. f (x + 2 * pi) = f x"
  shows "f (x + 2 * pi * real k) = (f x :: real)"
proof (induction k)
  case 0
  show ?case by simp
next
  case (Suc k)
  have "f (x + 2 * pi * real (Suc k)) = f ((x + 2 * pi * real k) + 2 * pi)"
    by (simp add: algebra_simps)
  also have "\<dots> = f (x + 2 * pi * real k)" using assms by blast
  finally show ?case using Suc by simp
qed

lemma periodic_int:
  assumes "\<forall>x. f (x + 2 * pi) = f x"
  shows "f (x + 2 * pi * real_of_int k) = (f x :: real)"
proof (cases k)
  case (nonneg n)
  then show ?thesis using periodic_nat[OF assms, of x n] by simp
next
  case (neg n)
  define m where "m = Suc n"
  have rk: "real_of_int k = - real m"
    unfolding neg m_def by simp
  have "f ((x + 2 * pi * real_of_int k) + 2 * pi * real m) = f (x + 2 * pi * real_of_int k)"
    by (rule periodic_nat[OF assms])
  moreover have "(x + 2 * pi * real_of_int k) + 2 * pi * real m = x"
    unfolding rk by simp
  ultimately show ?thesis by simp
qed

lemma nth_concat_replicate:
  "i < k * length xs \<Longrightarrow> concat (replicate k xs) ! i = xs ! (i mod length xs)"
proof (induction k arbitrary: i)
  case 0
  then show ?case by simp
next
  case (Suc k)
  show ?case
  proof (cases "i < length xs")
    case True
    then show ?thesis by (simp add: nth_append)
  next
    case False
    then have ge: "length xs \<le> i" by simp
    with Suc.prems have "i - length xs < k * length xs" by simp
    from Suc.IH[OF this] have "concat (replicate k xs) ! (i - length xs) = xs ! ((i - length xs) mod length xs)" .
    moreover have "(i - length xs) mod length xs = i mod length xs"
      using ge by (simp add: le_mod_geq)
    ultimately show ?thesis using False by (simp add: nth_append)
  qed
qed

lemma py_int_of_int: "py_int (real_of_int z) = z"
  by (simp add: py_int_def)

lemma length_short_signal:
  "length (short_signal frequency n_dec fs function) = nat (10 ^ n_dec * fs)"
proof -
  have "10 ^ n_dec * real_of_int fs = real_of_int (10 ^ n_dec * fs)" by simp
  then have "py_int (10 ^ n_dec * real_of_int fs) = 10 ^ n_dec * fs"
    using py_int_of_int by metis
  then show ?thesis
    by (simp add: short_signal_def arange_def Let_def)
qed

lemma nth_short_signal:
  assumes "k < nat (10 ^ n_dec * fs)"
  shows "short_signal frequency n_dec fs function ! k
           = function (2 * pi * real k * np_round frequency n_dec / real_of_int fs)"
proof -
  have "10 ^ n_dec * real_of_int fs = real_of_int (10 ^ n_dec * fs)" by simp
  then have "py_int (10 ^ n_dec * real_of_int fs) = 10 ^ n_dec * fs"
    using py_int_of_int by metis
  then show ?thesis
    using assms by (simp add: short_signal_def arange_def Let_def)
qed

lemma phase_split:
  fixes a b c q w K :: real
  assumes "w \<noteq> 0" "c * q = K * w"
  shows "2 * pi * (a + b * c) * q / w = 2 * pi * a * q / w + 2 * pi * (b * K)"
proof -
  have "2 * pi * (a + b * c) * q / w = 2 * pi * a * q / w + 2 * pi * b * (c * q) / w"
    by (simp add: algebra_simps add_divide_distrib)
  also have "2 * pi * b * (c * q) / w = 2 * pi * (b * K)"
    using assms by simp
  finally show ?thesis .
qed

text \<open>
  Claim C1.  For a positive sampling rate and a \<open>2\<pi>\<close>-periodic function, the signal
  returned by \<^verbatim>\<open>_fast_synthesize\<close> agrees at every index below \<open>length\<close> with direct
  generation at the quantized frequency: the cycle has \<open>10 ^ n_dec * fs\<close> samples, the sample
  at index \<open>i\<close> is the cycle's sample at \<open>i mod (10 ^ n_dec * fs)\<close>, and it equals the function
  at \<open>2\<pi> * i * f / fs\<close>, because one cycle holds the whole number
  \<open>rint (frequency * 10 ^ n_dec)\<close> of periods.  Arithmetic is exact (real numbers).
\<close>

theorem fast_synthesize_pointwise:
  assumes per: "\<forall>x. function (x + 2 * pi) = function x" and fs: "0 < fs" and i: "int i < len"
  shows "\<exists>wave. fast_synthesize frequency n_dec fs function len = Inr wave \<and> i < length wave
           \<and> length (short_signal frequency n_dec fs function) = 10 ^ n_dec * nat fs
           \<and> wave ! i = short_signal frequency n_dec fs function ! (i mod (10 ^ n_dec * nat fs))
           \<and> wave ! i = function (2 * pi * real i * np_round frequency n_dec / real_of_int fs)"
proof -
  define cycle where "cycle = short_signal frequency n_dec fs function"
  define N where "N = 10 ^ n_dec * nat fs"
  define R where "R = nat \<lceil>real_of_int len / real N\<rceil>"
  define q where "q = np_round frequency n_dec"
  have Npos: "0 < N" using fs by (simp add: N_def)
  have lc: "length cycle = N"
    using fs by (simp add: cycle_def length_short_signal N_def nat_mult_distrib nat_power_eq)
  have len0: "0 < len" using i by linarith
  have "0 \<le> real_of_int len / real N"
    using len0 Npos by simp
  then have rep0: "0 \<le> \<lceil>real_of_int len / real N\<rceil>"
    by (simp add: zero_le_ceiling)
  have run: "fast_synthesize frequency n_dec fs function len = Inr (concat (replicate R cycle))"
    using Npos rep0 unfolding fast_synthesize_def cycle_def[symmetric] Let_def lc R_def by simp
  have "real_of_int len / real N \<le> real_of_int \<lceil>real_of_int len / real N\<rceil>"
    by (rule le_of_int_ceiling)
  also have "\<dots> = real R" using rep0 by (simp add: R_def)
  finally have "real_of_int len \<le> real R * real N"
    using Npos by (simp add: divide_le_eq)
  then have "len \<le> int (R * N)"
    by (metis of_int_le_iff of_int_of_nat_eq of_nat_mult)
  then have iR: "i < R * N" using i by linarith
  have lw: "i < length (concat (replicate R cycle))"
    using iR by (simp add: length_concat lc sum_list_replicate)
  have n1: "concat (replicate R cycle) ! i = cycle ! (i mod N)"
    using nth_concat_replicate[of i R cycle] iR lc by simp
  have modlt: "i mod N < nat (10 ^ n_dec * fs)"
    using Npos fs by (simp add: N_def nat_mult_distrib nat_power_eq)
  have n2: "cycle ! (i mod N) = function (2 * pi * real (i mod N) * q / real_of_int fs)"
    unfolding cycle_def q_def using modlt by (rule nth_short_signal)
  define K where "K = rint (frequency * 10 ^ n_dec)"
  have rN: "real N = 10 ^ n_dec * real_of_int fs"
    using fs by (simp add: N_def)
  have qint: "q * 10 ^ n_dec = real_of_int K"
    by (simp add: q_def np_round_def K_def)
  have "real N * q = (q * 10 ^ n_dec) * real_of_int fs"
    by (simp add: rN)
  then have cq: "real N * q = real_of_int K * real_of_int fs"
    by (simp only: qint)
  have fs0: "real_of_int fs \<noteq> 0" using fs by simp
  have split: "real (i mod N) + real (i div N) * real N = real i"
    by (metis mod_div_mult_eq of_nat_add of_nat_mult)
  have e2: "real (i div N) * real_of_int K = real_of_int (int (i div N) * K)"
    by simp
  have step: "2 * pi * (real (i mod N) + real (i div N) * real N) * q / real_of_int fs
        = 2 * pi * real (i mod N) * q / real_of_int fs + 2 * pi * (real (i div N) * real_of_int K)"
    by (rule phase_split[OF fs0 cq])
  have e1: "2 * pi * real i * q / real_of_int fs
        = 2 * pi * real (i mod N) * q / real_of_int fs + 2 * pi * real_of_int (int (i div N) * K)"
    using step unfolding split e2 .
  have "function (2 * pi * real i * q / real_of_int fs)
        = function (2 * pi * real (i mod N) * q / real_of_int fs + 2 * pi * real_of_int (int (i div N) * K))"
    by (simp only: e1)
  also have "\<dots> = function (2 * pi * real (i mod N) * q / real_of_int fs)"
    by (rule periodic_int[OF per])
  finally have "function (2 * pi * real i * q / real_of_int fs)
        = function (2 * pi * real (i mod N) * q / real_of_int fs)" .
  with n2 have n3: "cycle ! (i mod N) = function (2 * pi * real i * q / real_of_int fs)" by simp
  have c3: "length (short_signal frequency n_dec fs function) = 10 ^ n_dec * nat fs"
    using lc unfolding cycle_def N_def .
  have c4: "concat (replicate R cycle) ! i
              = short_signal frequency n_dec fs function ! (i mod (10 ^ n_dec * nat fs))"
    using n1 unfolding cycle_def N_def .
  have c5: "concat (replicate R cycle) ! i
              = function (2 * pi * real i * np_round frequency n_dec / real_of_int fs)"
    using trans[OF n1 n3] unfolding q_def .
  show ?thesis
    by (intro exI[of _ "concat (replicate R cycle)"] conjI) (fact run, fact lw, fact c3, fact c4, fact c5)
qed

theorem fast_synthesize_pointwise_witness:
  "\<exists>wave. fast_synthesize 440 1 8000 sin 100000 = Inr wave \<and> 90000 < length wave
     \<and> length (short_signal 440 1 8000 sin) = 10 ^ 1 * nat 8000
     \<and> wave ! 90000 = short_signal 440 1 8000 sin ! (90000 mod (10 ^ 1 * nat 8000))
     \<and> wave ! 90000 = sin (2 * pi * real 90000 * np_round 440 1 / real_of_int 8000)"
proof -
  have per: "\<forall>x. sin (x + 2 * pi) = sin (x :: real)" by simp
  have fs: "0 < (8000 :: int)" by simp
  have i: "int 90000 < 100000" by simp
  show ?thesis by (rule fast_synthesize_pointwise[OF per fs i])
qed

section \<open>Properties of the interpolation\<close>

lemma arange_of_int: "arange (real_of_int n) = map real [0..<nat n]"
  by (simp add: arange_def)

lemma takeWhile_index_holds:
  assumes "i < length (takeWhile P xs)"
  shows "P (xs ! i)"
proof -
  have "takeWhile P xs ! i \<in> set (takeWhile P xs)"
    using assms by (rule nth_mem)
  then have "P (takeWhile P xs ! i)"
    by (rule set_takeWhileD[THEN conjunct2])
  then show ?thesis
    using takeWhile_nth[OF assms] by simp
qed

lemma searchsorted_right_le: "searchsorted_right xs v \<le> length xs"
  by (simp add: searchsorted_right_def length_takeWhile_le)

lemma searchsorted_right_unique:
  assumes srt: "sorted xs" and j: "j < length xs" and le: "xs ! j \<le> v"
    and gt: "\<forall>k < length xs. j < k \<longrightarrow> v < xs ! k"
  shows "searchsorted_right xs v = Suc j"
proof -
  define c where "c = length (takeWhile (\<lambda>a. a \<le> v) xs)"
  have "xs ! i \<le> v" if "i < Suc j" for i
  proof -
    have "xs ! i \<le> xs ! j"
      using srt that j by (intro sorted_nth_mono) simp_all
    then show ?thesis using le by linarith
  qed
  then have lo: "Suc j \<le> c"
    unfolding c_def using j by (intro length_takeWhile_less_P_nth) simp_all
  have hi: "c \<le> Suc j"
  proof (rule ccontr)
    assume "\<not> c \<le> Suc j"
    then have lt: "Suc j < c" by simp
    then have "xs ! Suc j \<le> v"
      unfolding c_def by (rule takeWhile_index_holds)
    moreover have "c \<le> length xs"
      unfolding c_def by (rule length_takeWhile_le)
    then have "Suc j < length xs" using lt by linarith
    then have "v < xs ! Suc j" using gt by simp
    ultimately show False by linarith
  qed
  show ?thesis
    using lo hi unfolding searchsorted_right_def c_def by linarith
qed

lemma interp1d_sorted:
  assumes len: "length x = length y" and ne: "x \<noteq> []" and srt: "sorted x"
  shows "interp1d kind x y fill_below fill_above =
           Inr (\<lambda>v. if v < hd x then fill_below
                     else if v > last x then fill_above
                     else (case kind of Previous \<Rightarrow> previous_value x y v
                                      | Linear \<Rightarrow> linear_value x y v))"
proof -
  have "sorted (map fst (zip x y))"
    using len srt by simp
  then have s: "sort_key fst (zip x y) = zip x y"
    by (rule sort_key_id_if_sorted)
  have fx: "map fst (zip x y) = x" and fy: "map snd (zip x y) = y"
    using len by simp_all
  show ?thesis
    using len ne unfolding interp1d_def s Let_def fx fy by simp
qed

lemma sorted_scaled:
  assumes "sorted ts" "0 < fs"
  shows "sorted (map (\<lambda>t. t * real_of_int fs) ts)"
  using assms by (induction ts) (auto intro!: mult_right_mono)

lemma map_err_all:
  assumes "\<forall>x \<in> set xs. f x = Inr (g x)"
  shows "map_err f xs = Inr (map g xs)"
  using assms by (induction xs) (simp_all add: and_then_def)

section \<open>The envelope of \<^verbatim>\<open>time_frequency\<close>\<close>

lemma length_compress:
  "length keep = length xs \<Longrightarrow> length (compress keep xs) = length (filter id keep)"
  unfolding compress_def
  by (induction keep xs rule: list_induct2) simp_all

lemma set_compress: "set (compress keep xs) \<subseteq> set xs"
  unfolding compress_def by (auto dest: set_zip_rightD)

lemma tf_intervals_length:
  assumes "tf_intervals gram frequencies tms fs len = Inr (n, last_time_in_secs, times2)"
  shows "length times2 = shape1 gram"
  using assms
  by (auto simp: tf_intervals_def and_then_def Let_def split: sum.splits if_splits option.splits)

lemma tf_pad_rows:
  assumes "tf_pad gram times2 last_time_in_secs = Inr (gram1, times3)"
    and "\<forall>row \<in> set (rows gram). length row = length times2"
  shows "\<forall>row \<in> set (rows gram1). length row = length times3"
  using assms
  by (auto simp: tf_pad_def and_then_def Let_def np_pad_def split: sum.splits if_splits)

lemma tf_overlap_rows:
  assumes "tf_overlap gram1 times3 last_time_in_secs = (gram2, times4)"
    and "\<forall>row \<in> set (rows gram1). length row = length times3"
  shows "\<forall>row \<in> set (rows gram2). length row = length times4"
proof -
  define idx where "idx = map (\<lambda>(s, e). e \<ge> 0 \<and> s \<le> last_time_in_secs) times3"
  have li: "length idx = length times3" by (simp add: idx_def)
  have t4: "length times4 = length (filter id idx)"
    using assms(1) length_compress[OF li]
    by (auto simp: tf_overlap_def Let_def idx_def[symmetric])
  have r2: "rows gram2 = map (map (\<lambda>x. max x 0)) (map (compress idx) (rows gram1))"
    using assms(1) by (auto simp: tf_overlap_def Let_def idx_def[symmetric] select_columns_def)
  show ?thesis
  proof
    fix row assume "row \<in> set (rows gram2)"
    then obtain r where r: "r \<in> set (rows gram1)" "row = map (\<lambda>x. max x 0) (compress idx r)"
      unfolding r2 by auto
    have "length r = length idx" using assms(2) r(1) li by simp
    then have "length (compress idx r) = length (filter id idx)"
      by (simp add: length_compress)
    then show "length row = length times4" using r(2) t4 by simp
  qed
qed

lemma tf_grid_rows:
  assumes wf: "wf_array gram"
    and grid: "tf_grid gram frequencies tms fs len = Inr (n, gram1, times1)"
  shows "\<forall>row \<in> set (rows gram1). length row = length times1"
proof -
  obtain l t2 where iv: "tf_intervals gram frequencies tms fs len = Inr (n, l, t2)"
    using grid by (auto simp: tf_grid_def and_then_def split: sum.splits prod.splits)
  obtain g3 t3 where pad: "tf_pad gram t2 l = Inr (g3, t3)"
    using grid iv by (auto simp: tf_grid_def and_then_def split: sum.splits prod.splits)
  have ov: "tf_overlap g3 t3 l = (gram1, times1)"
    using grid iv pad by (auto simp: tf_grid_def and_then_def split: sum.splits prod.splits)
  have "\<forall>row \<in> set (rows gram). length row = length t2"
    using wf tf_intervals_length[OF iv] by (simp add: wf_array_def list_all_iff)
  then have "\<forall>row \<in> set (rows g3). length row = length t3"
    by (rule tf_pad_rows[OF pad])
  then show ?thesis
    by (rule tf_overlap_rows[OF ov])
qed

lemma previous_interpolant:
  assumes len: "length x = length row" and many: "1 < length x" and srt: "sorted x"
  shows "\<exists>F. interp1d Previous x (take (length x) row) (hd row) (last row) = Inr F
           \<and> (\<forall>v. v < x ! 0 \<longrightarrow> F v = row ! 0)
           \<and> (\<forall>v j. j < length x \<and> x ! j \<le> v \<and> (\<forall>k < length x. j < k \<longrightarrow> v < x ! k) \<longrightarrow> F v = row ! j)"
proof -
  define F where "F = (\<lambda>v. if v < hd x then hd row
                     else if v > last x then last row
                     else (case Previous of Previous \<Rightarrow> previous_value x row v
                                      | Linear \<Rightarrow> linear_value x row v))"
  have ne: "x \<noteq> []" and rne: "row \<noteq> []" using many len by auto
  have tk: "take (length x) row = row" using len by simp
  have run: "interp1d Previous x (take (length x) row) (hd row) (last row) = Inr F"
    unfolding tk F_def using len ne srt by (rule interp1d_sorted)
  have hdx: "hd x = x ! 0" using ne by (simp add: hd_conv_nth)
  have hdr: "hd row = row ! 0" using rne by (simp add: hd_conv_nth)
  have lastx: "last x = x ! (length x - 1)" using ne by (simp add: last_conv_nth)
  have lastr: "last row = row ! (length x - 1)" using rne len by (simp add: last_conv_nth)
  have below: "\<forall>v. v < x ! 0 \<longrightarrow> F v = row ! 0"
    by (simp add: F_def hdx hdr)
  have latest: "F v = row ! j"
    if j: "j < length x" and le: "x ! j \<le> v" and gt: "\<forall>k < length x. j < k \<longrightarrow> v < x ! k" for v j
  proof -
    have "x ! 0 \<le> x ! j" using srt j by (intro sorted_nth_mono) simp_all
    then have nb: "\<not> v < hd x" using le hdx by linarith
    show ?thesis
    proof (cases "v > last x")
      case True
      have "j = length x - 1"
      proof (rule ccontr)
        assume "j \<noteq> length x - 1"
        then have "j < length x - 1" using j by linarith
        then have "v < x ! (length x - 1)" using gt ne by simp
        then show False using True lastx by linarith
      qed
      then show ?thesis using True nb by (simp add: F_def lastr)
    next
      case False
      have "searchsorted_right x v = Suc j"
        using srt j le gt by (rule searchsorted_right_unique)
      then have "previous_value x row v = row ! j"
        by (simp add: previous_value_def)
      then show ?thesis using False nb by (simp add: F_def)
    qed
  qed
  show ?thesis
    using run below latest by blast
qed

text \<open>
  Claim C3.  Let the grid of a well-formed gram be normalized to more than one interval
  with non-decreasing starts, and keep the rows that reach the threshold.  Then the
  envelope has one row of \<open>length\<close> samples for every kept row, and at sample index \<open>i\<close>
  it holds the magnitude of the latest interval whose start times \<open>fs\<close> is at most \<open>i\<close>
  (the interval \<open>j\<close> with \<open>start j * fs \<le> i\<close> and every later start beyond \<open>i\<close>; for the last
  interval this is the hold after the last start), and the magnitude of the first
  interval at any sample before the first start.
\<close>

theorem envelope_holds_latest_interval:
  assumes wf: "wf_array gram"
    and grid: "tf_grid gram frequencies tms fs len = Inr (n, gram1, times1)"
    and many: "1 < length times1"
    and srt: "sorted (map fst times1)"
    and fs: "0 < fs"
    and kept: "gram2 = select_rows gram1 (freq_keep gram1 threshold)"
    and r: "r < length (rows gram2)"
    and i: "int i < n"
  shows "\<exists>signal. tf_signal gram2 times1 fs n = Inr signal
           \<and> length signal = length (rows gram2) \<and> length (signal ! r) = nat n
           \<and> (real i < fst (times1 ! 0) * real_of_int fs \<longrightarrow> signal ! r ! i = rows gram2 ! r ! 0)
           \<and> (\<forall>j < length times1.
                 fst (times1 ! j) * real_of_int fs \<le> real i
                 \<and> (\<forall>k < length times1. j < k \<longrightarrow> real i < fst (times1 ! k) * real_of_int fs)
                 \<longrightarrow> signal ! r ! i = rows gram2 ! r ! j)"
proof -
  define x where "x = map (\<lambda>(s, e). s * real_of_int fs) times1"
  define g where "g = (\<lambda>row. map (projr (interp1d Previous x (take (length times1) row) (hd row) (last row)))
                              (arange (real_of_int n)))"
  define row where "row = rows gram2 ! r"
  have lx: "length x = length times1" by (simp add: x_def)
  have "x = map (\<lambda>t. t * real_of_int fs) (map fst times1)"
    by (simp add: x_def case_prod_beta)
  then have sx: "sorted x"
    using sorted_scaled[OF srt fs] by simp
  have xn: "x ! j = fst (times1 ! j) * real_of_int fs" if "j < length times1" for j
    using that by (simp add: x_def case_prod_beta)
  have rows1: "\<forall>row \<in> set (rows gram1). length row = length times1"
    using wf grid by (rule tf_grid_rows)
  have "set (rows gram2) \<subseteq> set (rows gram1)"
    unfolding kept select_rows_def using set_compress by simp
  then have rows2: "\<forall>row \<in> set (rows gram2). length row = length x"
    using rows1 lx by auto
  have each: "and_then (interp1d Previous x (take (length times1) rw) (hd rw) (last rw))
                (\<lambda>interpolator. Inr (map interpolator (arange (real_of_int n)))) = Inr (g rw)"
    if "rw \<in> set (rows gram2)" for rw
  proof -
    have l: "length x = length rw" using rows2 that by simp
    from previous_interpolant[OF l] many sx lx
    obtain F where "interp1d Previous x (take (length times1) rw) (hd rw) (last rw) = Inr F"
      by auto
    then show ?thesis by (simp add: and_then_def g_def)
  qed
  have run: "tf_signal gram2 times1 fs n = Inr (map g (rows gram2))"
    unfolding tf_signal_def Let_def x_def[symmetric]
    using many each by (simp add: map_err_all)
  have rin: "row \<in> set (rows gram2)" unfolding row_def using r by simp
  then have lr: "length x = length row" using rows2 by simp
  from previous_interpolant[OF lr] many sx lx
  obtain F where F: "interp1d Previous x (take (length times1) row) (hd row) (last row) = Inr F"
    and below: "\<forall>v. v < x ! 0 \<longrightarrow> F v = row ! 0"
    and latest: "\<forall>v j. j < length x \<and> x ! j \<le> v \<and> (\<forall>k < length x. j < k \<longrightarrow> v < x ! k) \<longrightarrow> F v = row ! j"
    by auto
  have grow: "g row = map F (map real [0..<nat n])"
    by (simp add: g_def F arange_of_int)
  have inat: "i < nat n" using i by linarith
  have sig_r: "map g (rows gram2) ! r = g row"
    using r by (simp add: row_def)
  have len_r: "length (map g (rows gram2) ! r) = nat n"
    unfolding sig_r grow by simp
  have val: "map g (rows gram2) ! r ! i = F (real i)"
    unfolding sig_r grow using inat by simp
  have c4: "real i < fst (times1 ! 0) * real_of_int fs \<longrightarrow> map g (rows gram2) ! r ! i = rows gram2 ! r ! 0"
  proof
    assume "real i < fst (times1 ! 0) * real_of_int fs"
    moreover have "0 < length times1" using many by linarith
    then have "x ! 0 = fst (times1 ! 0) * real_of_int fs" by (rule xn)
    ultimately have "real i < x ! 0" by simp
    then show "map g (rows gram2) ! r ! i = rows gram2 ! r ! 0"
      using below val by (simp add: row_def)
  qed
  have c5: "\<forall>j < length times1.
                 fst (times1 ! j) * real_of_int fs \<le> real i
                 \<and> (\<forall>k < length times1. j < k \<longrightarrow> real i < fst (times1 ! k) * real_of_int fs)
                 \<longrightarrow> map g (rows gram2) ! r ! i = rows gram2 ! r ! j"
  proof (intro allI impI)
    fix j assume j: "j < length times1"
      and h: "fst (times1 ! j) * real_of_int fs \<le> real i
                 \<and> (\<forall>k < length times1. j < k \<longrightarrow> real i < fst (times1 ! k) * real_of_int fs)"
    have a: "j < length x" using j lx by simp
    have b: "x ! j \<le> real i" using h xn[OF j] by simp
    have c: "\<forall>k < length x. j < k \<longrightarrow> real i < x ! k"
      using h xn lx by simp
    from latest a b c have "F (real i) = row ! j" by blast
    then show "map g (rows gram2) ! r ! i = rows gram2 ! r ! j"
      using val by (simp add: row_def)
  qed
  have c2: "length (map g (rows gram2)) = length (rows gram2)" by simp
  show ?thesis
    by (intro exI[of _ "map g (rows gram2)"] conjI) (fact run, fact c2, fact len_r, fact c4, fact c5)
qed

theorem envelope_holds_latest_interval_witness:
  "\<exists>signal. tf_signal \<lparr>shape0 = 1, shape1 = 2, rows = [[3, 7]]\<rparr> [(0, 1), (1, 2)] 2 4 = Inr signal
     \<and> length signal = 1 \<and> length (signal ! 0) = 4 \<and> signal ! 0 ! 3 = 7 \<and> signal ! 0 ! 1 = 3"
proof -
  let ?g = "\<lparr>shape0 = 1, shape1 = 2, rows = [[3, 7]]\<rparr>"
  let ?t = "[(0 :: real, 1 :: real), (1, 2)]"
  have wf: "wf_array ?g" by (simp add: wf_array_def)
  have grid: "tf_grid ?g [1] (Intervals ?t) 2 (Some 4) = Inr (4, ?g, ?t)"
    by (simp add: tf_eval)
  have many: "1 < length ?t" by simp
  have srt: "sorted (map fst ?t)" by simp
  have fs: "0 < (2 :: int)" by simp
  have kept: "?g = select_rows ?g (freq_keep ?g (1 / 100))"
    by (simp add: tf_eval)
  have r: "0 < length (rows ?g)" by simp
  have i3: "int 3 < 4" and i1: "int 1 < 4" by simp_all
  from envelope_holds_latest_interval[OF wf grid many srt fs kept r i3]
  obtain signal where s: "tf_signal ?g ?t 2 4 = Inr signal" "length signal = length (rows ?g)"
    "length (signal ! 0) = nat 4"
    and l3: "\<forall>j < length ?t. fst (?t ! j) * real_of_int 2 \<le> real 3
                 \<and> (\<forall>k < length ?t. j < k \<longrightarrow> real 3 < fst (?t ! k) * real_of_int 2)
                 \<longrightarrow> signal ! 0 ! 3 = rows ?g ! 0 ! j"
    by blast
  from envelope_holds_latest_interval[OF wf grid many srt fs kept r i1] s(1)
  have l1: "\<forall>j < length ?t. fst (?t ! j) * real_of_int 2 \<le> real 1
                 \<and> (\<forall>k < length ?t. j < k \<longrightarrow> real 1 < fst (?t ! k) * real_of_int 2)
                 \<longrightarrow> signal ! 0 ! 1 = rows ?g ! 0 ! j"
    by auto
  have "signal ! 0 ! 3 = 7" using l3[rule_format, of 1] by simp
  moreover have "signal ! 0 ! 1 = 3" using l1[rule_format, of 0] by (simp add: less_Suc_eq)
  ultimately show ?thesis using s by simp
qed

section \<open>Properties of \<^verbatim>\<open>pitch_contour\<close>\<close>

lemma length_cumsum_from: "length (cumsum_from a xs) = length xs"
  by (induction xs arbitrary: a) simp_all

lemma nth_cumsum_from:
  "i < length xs \<Longrightarrow> cumsum_from a xs ! i = a + sum_list (take (Suc i) xs)"
proof (induction xs arbitrary: a i)
  case Nil
  then show ?case by simp
next
  case (Cons x xs)
  show ?case
  proof (cases i)
    case 0
    then show ?thesis by simp
  next
    case (Suc k)
    with Cons.prems have "k < length xs" by simp
    from Cons.IH[OF this, of "a + x"] show ?thesis
      using Suc by (simp add: add.assoc)
  qed
qed

lemma nth_cumsum_samples:
  assumes "i < m"
  shows "cumsum (map h [0..<m]) ! i = (\<Sum>k\<le>i. h k)"
proof -
  have "take (Suc i) (map h [0..<m]) = map h [0..<Suc i]"
    using assms by (simp add: take_map min_def del: upt_Suc)
  then have "sum_list (take (Suc i) (map h [0..<m])) = sum h {0..<Suc i}"
    by (simp add: interv_sum_list_conv_sum_set_nat del: upt_Suc)
  also have "{0..<Suc i} = {..i}" by auto
  finally show ?thesis
    using assms by (simp add: cumsum_def nth_cumsum_from)
qed

lemma previous_value_const:
  assumes "x \<noteq> []"
  shows "previous_value x (replicate (length x) c) v = c"
proof -
  have "searchsorted_right x v \<le> length x" by (rule searchsorted_right_le)
  moreover have "0 < length x" using assms by simp
  ultimately have "max 1 (searchsorted_right x v) - 1 < length x" by linarith
  then show ?thesis by (simp add: previous_value_def)
qed

lemma linear_value_const:
  assumes "x \<noteq> []"
  shows "linear_value x (replicate (length x) c) v = c"
proof -
  define j where "j = searchsorted_right x v - 1"
  have l: "0 < length x" using assms by simp
  show ?thesis
  proof (cases "Suc j \<ge> length x")
    case True
    then show ?thesis using l by (simp add: linear_value_def j_def[symmetric] Let_def)
  next
    case False
    then have "j < length x" "Suc j < length x" by simp_all
    then show ?thesis using False by (simp add: linear_value_def j_def[symmetric] Let_def)
  qed
qed

lemma interp1d_const:
  assumes ne: "x \<noteq> []" and srt: "sorted x"
  shows "interp1d kind x (replicate (length x) c) 0 0
           = Inr (\<lambda>v. if hd x \<le> v \<and> v \<le> last x then c else 0)"
proof -
  have "interp1d kind x (replicate (length x) c) 0 0 =
          Inr (\<lambda>v. if v < hd x then 0
                     else if v > last x then 0
                     else (case kind of Previous \<Rightarrow> previous_value x (replicate (length x) c) v
                                      | Linear \<Rightarrow> linear_value x (replicate (length x) c) v))"
    using ne srt by (intro interp1d_sorted) simp_all
  also have "(\<lambda>v. if v < hd x then 0
                     else if v > last x then 0
                     else (case kind of Previous \<Rightarrow> previous_value x (replicate (length x) c) v
                                      | Linear \<Rightarrow> linear_value x (replicate (length x) c) v))
           = (\<lambda>v. if hd x \<le> v \<and> v \<le> last x then c else 0)"
    using ne by (cases kind) (auto simp: previous_value_const linear_value_const fun_eq_iff)
  finally show ?thesis .
qed

lemma sum_from_index:
  "(\<Sum>k\<le>i. if i0 \<le> k then c else 0) = c * real (Suc i - i0)"
proof (induction i)
  case 0
  show ?case by (cases i0) simp_all
next
  case (Suc i)
  show ?case
  proof (cases "i0 \<le> Suc i")
    case True
    then have "real (Suc (Suc i) - i0) = real (Suc i - i0) + 1"
      by (simp add: Suc_diff_le)
    then show ?thesis using True Suc by (simp add: algebra_simps)
  next
    case False
    then show ?thesis using Suc by simp
  qed
qed

lemma real_ge_iff_nat_ceiling: "x \<le> real k \<longleftrightarrow> nat \<lceil>x\<rceil> \<le> k"
proof -
  have "nat \<lceil>x\<rceil> \<le> k \<longleftrightarrow> \<lceil>x\<rceil> \<le> int k" by (simp add: nat_le_iff)
  also have "\<dots> \<longleftrightarrow> x \<le> real_of_int (int k)" by (rule ceiling_le_iff)
  finally show ?thesis by simp
qed

text \<open>
  Claim C10.  Without \<open>amplitudes\<close> the amplitude is 1 at every sample, so every output
  sample is the function at the running sum of the interpolated angular steps.  The steps
  are zero after the last input time; hence every sample after it equals the function at
  the final accumulated phase, the sum of the steps of all samples up to the last input
  time: one constant, which the function need not map to zero.
\<close>

theorem pitch_contour_tail_constant:
  assumes srt: "sorted tms" and ne: "tms \<noteq> []" and len: "length frequencies = length tms"
    and fs: "0 < fs" and n: "0 \<le> n"
  shows "\<exists>f_interp out.
           interp1d kind (map (\<lambda>t. t * real_of_int fs) tms)
             (map (\<lambda>f. 2 * pi * f / real_of_int fs) (map (\<lambda>f. max f 0) frequencies)) 0 0 = Inr f_interp
           \<and> pitch_contour tms frequencies fs None function (Some n) kind = Inr out
           \<and> length out = nat n
           \<and> (\<forall>i < nat n. out ! i = function (\<Sum>k\<le>i. f_interp (real k)))
           \<and> (\<forall>i < nat n. last tms * real_of_int fs < real i \<longrightarrow>
                 f_interp (real i) = 0
                 \<and> out ! i = function (\<Sum>k \<in> {k. real k \<le> last tms * real_of_int fs}. f_interp (real k)))"
proof -
  define X where "X = map (\<lambda>t. t * real_of_int fs) tms"
  define Y where "Y = map (\<lambda>f. 2 * pi * f / real_of_int fs) (map (\<lambda>f. max f 0) frequencies)"
  define F where "F = (\<lambda>v. if v < hd X then 0
                     else if v > last X then 0
                     else (case kind of Previous \<Rightarrow> previous_value X Y v
                                      | Linear \<Rightarrow> linear_value X Y v))"
  define h where "h = (\<lambda>k. F (real k))"
  define out where "out = map2 (*) (replicate (nat n) 1) (map function (cumsum (map h [0..<nat n])))"
  have Xne: "X \<noteq> []" using ne by (simp add: X_def)
  have sX: "sorted X" unfolding X_def using srt fs by (rule sorted_scaled)
  have lXY: "length X = length Y" using len by (simp add: X_def Y_def)
  have lastX: "last X = last tms * real_of_int fs"
    using ne by (simp add: X_def last_map)
  have runF: "interp1d kind X Y 0 0 = Inr F"
    unfolding F_def using lXY Xne sX by (rule interp1d_sorted)
  have fe: "map F (arange (real_of_int n)) = map h [0..<nat n]"
    by (simp add: arange_of_int h_def)
  have lc: "length (cumsum (map h [0..<nat n])) = nat n"
    by (simp add: cumsum_def length_cumsum_from)
  have bm: "broadcast_mult (replicate (nat n) 1) (map function (cumsum (map h [0..<nat n]))) = Inr out"
    by (simp add: broadcast_mult_def lc out_def)
  have on: "ones n = Inr (replicate (nat n) 1)"
    using n by (simp add: ones_def)
  have run: "pitch_contour tms frequencies fs None function (Some n) kind = Inr out"
    unfolding pitch_contour_def Let_def X_def[symmetric] Y_def[symmetric]
    by (simp add: and_then_def runF fe on bm)
  have lout: "length out = nat n"
    by (simp add: out_def lc)
  have val: "out ! i = function (\<Sum>k\<le>i. h k)" if "i < nat n" for i
  proof -
    have "out ! i = 1 * function (cumsum (map h [0..<nat n]) ! i)"
      using that by (simp add: out_def lc)
    then show ?thesis using nth_cumsum_samples[OF that, of h] by simp
  qed
  have zero: "h k = 0" if "last tms * real_of_int fs < real k" for k
    using that by (simp add: h_def F_def lastX)
  have tail: "h i = 0 \<and> out ! i = function (\<Sum>k \<in> {k. real k \<le> last tms * real_of_int fs}. h k)"
    if i: "i < nat n" and after: "last tms * real_of_int fs < real i" for i
  proof -
    define S where "S = {k. real k \<le> last tms * real_of_int fs}"
    have sub: "S \<subseteq> {..i}"
      using after unfolding S_def by auto
    have out0: "\<forall>k \<in> {..i} - S. h k = 0"
      using zero unfolding S_def by auto
    have "sum h {..i} = sum h S"
      using sub out0 by (intro sum.mono_neutral_right) simp_all
    then show ?thesis
      using val[OF i] zero[OF after] unfolding S_def by simp
  qed
  have c4: "\<forall>i < nat n. out ! i = function (\<Sum>k\<le>i. F (real k))"
    using val unfolding h_def by blast
  have c5: "\<forall>i < nat n. last tms * real_of_int fs < real i \<longrightarrow>
                 F (real i) = 0
                 \<and> out ! i = function (\<Sum>k \<in> {k. real k \<le> last tms * real_of_int fs}. F (real k))"
    using tail unfolding h_def by blast
  show ?thesis
    unfolding X_def[symmetric] Y_def[symmetric]
    by (intro exI[of _ F] exI[of _ out] conjI) (fact runF, fact run, fact lout, fact c4, fact c5)
qed

theorem pitch_contour_tail_constant_witness:
  "\<exists>f_interp out.
           interp1d Linear (map (\<lambda>t. t * real_of_int 4) [0, 1])
             (map (\<lambda>f. 2 * pi * f / real_of_int 4) (map (\<lambda>f. max f 0) [1, 1])) 0 0 = Inr f_interp
           \<and> pitch_contour [0, 1] [1, 1] 4 None sin (Some 8) Linear = Inr out
           \<and> length out = 8
           \<and> f_interp (real 6) = 0
           \<and> out ! 6 = sin (\<Sum>k \<in> {k. real k \<le> 4}. f_interp (real k))
           \<and> out ! 7 = sin (\<Sum>k \<in> {k. real k \<le> 4}. f_interp (real k))"
proof -
  have srt: "sorted [0, 1 :: real]" by simp
  have ne: "[0, 1 :: real] \<noteq> []" by simp
  have len: "length [1, 1 :: real] = length [0, 1 :: real]" by simp
  have fs: "0 < (4 :: int)" by simp
  have n: "0 \<le> (8 :: int)" by simp
  from pitch_contour_tail_constant[OF srt ne len fs n, of Linear sin]
  obtain f_interp out where
    a: "interp1d Linear (map (\<lambda>t. t * real_of_int 4) [0, 1])
             (map (\<lambda>f. 2 * pi * f / real_of_int 4) (map (\<lambda>f. max f 0) [1, 1])) 0 0 = Inr f_interp"
    and b: "pitch_contour [0, 1] [1, 1] 4 None sin (Some 8) Linear = Inr out"
    and c: "length out = nat 8"
    and t: "\<forall>i < nat 8. last [0, 1] * real_of_int 4 < real i \<longrightarrow>
                 f_interp (real i) = 0
                 \<and> out ! i = sin (\<Sum>k \<in> {k. real k \<le> last [0, 1] * real_of_int 4}. f_interp (real k))"
    by blast
  have t6: "f_interp (real 6) = 0 \<and> out ! 6 = sin (\<Sum>k \<in> {k. real k \<le> 4}. f_interp (real k))"
    using t[rule_format, of 6] by simp
  have t7: "out ! 7 = sin (\<Sum>k \<in> {k. real k \<le> 4}. f_interp (real k))"
    using t[rule_format, of 7] by simp
  show ?thesis
    using a b c t6 t7 by (intro exI[of _ f_interp] exI[of _ out]) simp
qed

text \<open>
  Claim C6, as stated, fails.  With times 1 s and 2 s, the constant frequency 1 Hz, the
  constant amplitude 1 and \<open>fs = 4\<close>, sample 4 is the first sample of the span.  The phase
  is the running sum of the steps, which are zero before the span, so sample 4 is
  \<open>sin (\<pi> / 2) = 1\<close>, whereas \<open>sin (2\<pi> * f * i / fs) = sin (2\<pi>) = 0\<close>.
\<close>

theorem pitch_contour_phase_counterexample:
  "pitch_contour [1, 2] [1, 1] 4 (Some [1, 1]) sin (Some 5) Linear = Inr [0, 0, 0, 0, 1]
   \<and> sin (2 * pi * 1 * real 4 / real_of_int 4) = 0
   \<and> \<bar>[0, 0, 0, 0, 1 :: real] ! 4 - sin (2 * pi * 1 * real 4 / real_of_int 4)\<bar> = 1"
proof -
  have i: "interp1d Linear [4, 8] [pi / 2, pi / 2] 0 0
             = Inr (\<lambda>v. if 4 \<le> v \<and> v \<le> 8 then pi / 2 else 0)"
    using interp1d_const[of "[4, 8]" Linear "pi / 2"] by (simp add: eval_nat_numeral)
  have a: "interp1d Linear [4, 8] [1, 1] 0 0
             = Inr (\<lambda>v. if 4 \<le> v \<and> v \<le> 8 then 1 else 0)"
    using interp1d_const[of "[4, 8]" Linear 1] by (simp add: eval_nat_numeral)
  have "pitch_contour [1, 2] [1, 1] 4 (Some [1, 1]) sin (Some 5) Linear = Inr [0, 0, 0, 0, 1]"
    by (simp add: pitch_contour_def Let_def and_then_def i a arange_def broadcast_mult_def cumsum_def
          eval_nat_numeral)
  then show ?thesis by simp
qed

text \<open>
  Claim C6, amended.  With sorted times, a constant frequency \<open>f \<ge> 0\<close> and the constant
  amplitude 1 supplied at every time, every output sample outside \<open>[t0 * fs, t1 * fs]\<close> is 0
  and the sample at an index \<open>i\<close> inside it is the function at
  \<open>2\<pi> * f * (i + 1 - i0) / fs\<close>, where \<open>i0\<close> is the first sample index of the span: a tone
  of frequency \<open>f\<close> whose phase starts at the first sample of the span.
\<close>

theorem pitch_contour_constant_tone:
  assumes srt: "sorted tms" and ne: "tms \<noteq> []" and fs: "0 < fs" and n: "0 \<le> n" and f: "0 \<le> f"
    and i0: "i0 = nat \<lceil>hd tms * real_of_int fs\<rceil>"
  shows "\<exists>out. pitch_contour tms (replicate (length tms) f) fs (Some (replicate (length tms) 1))
                  function (Some n) kind = Inr out
           \<and> length out = nat n
           \<and> (\<forall>i < nat n. out ! i =
                 (if hd tms * real_of_int fs \<le> real i \<and> real i \<le> last tms * real_of_int fs
                  then function (2 * pi * f * real (Suc i - i0) / real_of_int fs) else 0))"
proof -
  define X where "X = map (\<lambda>t. t * real_of_int fs) tms"
  define c where "c = 2 * pi * f / real_of_int fs"
  define F where "F = (\<lambda>v. if hd X \<le> v \<and> v \<le> last X then c else 0)"
  define A where "A = (\<lambda>v. if hd X \<le> v \<and> v \<le> last X then 1 else (0 :: real))"
  define h where "h = (\<lambda>k. F (real k))"
  define a where "a = map A (map real [0..<nat n])"
  define out where "out = map2 (*) a (map function (cumsum (map h [0..<nat n])))"
  have Xne: "X \<noteq> []" using ne by (simp add: X_def)
  have sX: "sorted X" unfolding X_def using srt fs by (rule sorted_scaled)
  have lX: "length X = length tms" by (simp add: X_def)
  have hdX: "hd X = hd tms * real_of_int fs" using ne by (simp add: X_def hd_map)
  have lastX: "last X = last tms * real_of_int fs" using ne by (simp add: X_def last_map)
  have Y: "map (\<lambda>f. 2 * pi * f / real_of_int fs) (map (\<lambda>f. max f 0) (replicate (length tms) f))
             = replicate (length X) c"
    using f by (simp add: c_def lX max_def)
  have runF: "interp1d kind X (replicate (length X) c) 0 0 = Inr F"
    unfolding F_def using Xne sX by (rule interp1d_const)
  have runA: "interp1d kind X (replicate (length X) 1) 0 0 = Inr A"
    unfolding A_def using Xne sX by (rule interp1d_const)
  have fe: "map F (arange (real_of_int n)) = map h [0..<nat n]"
    by (simp add: arange_of_int h_def)
  have ae: "map A (arange (real_of_int n)) = a"
    by (simp add: arange_of_int a_def)
  have lc: "length (cumsum (map h [0..<nat n])) = nat n"
    by (simp add: cumsum_def length_cumsum_from)
  have la: "length a = nat n" by (simp add: a_def)
  have bm: "broadcast_mult a (map function (cumsum (map h [0..<nat n]))) = Inr out"
    by (simp add: broadcast_mult_def lc la out_def)
  have run: "pitch_contour tms (replicate (length tms) f) fs (Some (replicate (length tms) 1))
               function (Some n) kind = Inr out"
    unfolding pitch_contour_def Let_def X_def[symmetric] Y
    by (simp add: and_then_def runF lX[symmetric] runA fe ae bm)
  have lout: "length out = nat n"
    by (simp add: out_def lc la)
  have val: "out ! i = A (real i) * function (\<Sum>k\<le>i. h k)" if "i < nat n" for i
  proof -
    have "out ! i = a ! i * function (cumsum (map h [0..<nat n]) ! i)"
      using that by (simp add: out_def lc la)
    moreover have "a ! i = A (real i)" using that by (simp add: a_def)
    ultimately show ?thesis using nth_cumsum_samples[OF that, of h] by simp
  qed
  have c3: "\<forall>i < nat n. out ! i =
                 (if hd tms * real_of_int fs \<le> real i \<and> real i \<le> last tms * real_of_int fs
                  then function (2 * pi * f * real (Suc i - i0) / real_of_int fs) else 0)"
  proof (intro allI impI)
    fix i assume i: "i < nat n"
    show "out ! i = (if hd tms * real_of_int fs \<le> real i \<and> real i \<le> last tms * real_of_int fs
                  then function (2 * pi * f * real (Suc i - i0) / real_of_int fs) else 0)"
    proof (cases "hd X \<le> real i \<and> real i \<le> last X")
      case True
      have "h k = (if i0 \<le> k then c else 0)" if "k \<in> {..i}" for k
      proof -
        have "real k \<le> last X" using that True by simp
        moreover have "hd X \<le> real k \<longleftrightarrow> i0 \<le> k"
          unfolding i0 hdX by (rule real_ge_iff_nat_ceiling)
        ultimately show ?thesis by (simp add: h_def F_def)
      qed
      then have "(\<Sum>k\<le>i. h k) = (\<Sum>k\<le>i. if i0 \<le> k then c else 0)"
        by (intro sum.cong) simp_all
      also have "\<dots> = c * real (Suc i - i0)" by (rule sum_from_index)
      also have "\<dots> = 2 * pi * f * real (Suc i - i0) / real_of_int fs"
        by (simp add: c_def)
      finally have "out ! i = function (2 * pi * f * real (Suc i - i0) / real_of_int fs)"
        using val[OF i] True by (simp add: A_def)
      then show ?thesis using True by (simp add: hdX lastX)
    next
      case False
      then have "A (real i) = 0" unfolding A_def by (simp only: if_False)
      then have o: "out ! i = 0" using val[OF i] by simp
      have nin: "\<not> (hd tms * real_of_int fs \<le> real i \<and> real i \<le> last tms * real_of_int fs)"
        using False unfolding hdX lastX .
      show ?thesis unfolding o by (simp only: nin if_False)
    qed
  qed
  show ?thesis
    by (intro exI[of _ out] conjI) (fact run, fact lout, fact c3)
qed

theorem pitch_contour_constant_tone_witness:
  "\<exists>out. pitch_contour [1, 2] [1, 1] 4 (Some [1, 1]) sin (Some 8) Linear = Inr out
           \<and> length out = 8
           \<and> out ! 2 = 0
           \<and> out ! 4 = sin (2 * pi * 1 * real (Suc 4 - 4) / real_of_int 4)
           \<and> out ! 6 = sin (2 * pi * 1 * real (Suc 6 - 4) / real_of_int 4)"
proof -
  have srt: "sorted [1, 2 :: real]" by simp
  have ne: "[1, 2 :: real] \<noteq> []" by simp
  have fs: "0 < (4 :: int)" by simp
  have n: "0 \<le> (8 :: int)" by simp
  have f: "0 \<le> (1 :: real)" by simp
  have i0: "(4 :: nat) = nat \<lceil>hd [1, 2 :: real] * real_of_int 4\<rceil>" by simp
  from pitch_contour_constant_tone[OF srt ne fs n f i0, of sin Linear]
  obtain out where
    b: "pitch_contour [1, 2] (replicate (length [1, 2 :: real]) 1) 4 (Some (replicate (length [1, 2 :: real]) 1))
          sin (Some 8) Linear = Inr out"
    and c: "length out = nat 8"
    and t: "\<forall>i < nat 8. out ! i =
                 (if hd [1, 2] * real_of_int 4 \<le> real i \<and> real i \<le> last [1, 2] * real_of_int 4
                  then sin (2 * pi * 1 * real (Suc i - 4) / real_of_int 4) else 0)"
    by blast
  have b': "pitch_contour [1, 2] [1, 1] 4 (Some [1, 1]) sin (Some 8) Linear = Inr out"
    using b by (simp add: eval_nat_numeral)
  have t2: "out ! 2 = 0" using t[rule_format, of 2] by simp
  have t4: "out ! 4 = sin (2 * pi * 1 * real (Suc 4 - 4) / real_of_int 4)"
    using t[rule_format, of 4] by simp
  have t6: "out ! 6 = sin (2 * pi * 1 * real (Suc 6 - 4) / real_of_int 4)"
    using t[rule_format, of 6] by simp
  show ?thesis
    using b' c t2 t4 t6 by (intro exI[of _ out]) simp
qed

end
